theory Spec2Isabelle
  imports Main
begin

section \<open>JavaScript strings\<close>

text \<open>
  The database access layer of the repository (\<^verbatim>\<open>createDb\<close> and its helpers) works on
  JavaScript strings. A string is modelled as a HOL \<^typ>\<open>string\<close>, one \<^typ>\<open>char\<close> per code
  unit, for the code units up to U+00FF. White space is what \<^verbatim>\<open>trim()\<close> and the regular
  expression class \<^verbatim>\<open>\s\<close> accept in this range: tab, line feed, vertical tab, form feed,
  carriage return, space and the no-break space U+00A0.

  \<open>toUpperCase\<close> and \<open>toLowerCase\<close> map the letters \<^verbatim>\<open>a-z\<close> and \<^verbatim>\<open>A-Z\<close> and leave every other
  character as it is. The functions of the language also change characters above
  U+007F (U+00DF becomes \<^verbatim>\<open>SS\<close> in upper case, the others stay above U+007F), but the source
  only compares the results with the ASCII keywords and aliases below, none of which
  contains \<^verbatim>\<open>SS\<close>: every such comparison comes out as in the source.
\<close>

definition is_space :: "char \<Rightarrow> bool" where
  "is_space c =
     (c \<in> set [CHR 0x09, CHR 0x0A, CHR 0x0B, CHR 0x0C, CHR 0x0D, CHR '' '', CHR 0xA0])"

definition trim :: "string \<Rightarrow> string" where
  "trim s = rev (dropWhile is_space (rev (dropWhile is_space s)))"

definition lower_letters :: string where
  "lower_letters = ''abcdefghijklmnopqrstuvwxyz''"

definition upper_letters :: string where
  "upper_letters = ''ABCDEFGHIJKLMNOPQRSTUVWXYZ''"

definition upper_char :: "char \<Rightarrow> char" where
  "upper_char c = (case map_of (zip lower_letters upper_letters) c of Some u \<Rightarrow> u | None \<Rightarrow> c)"

definition lower_char :: "char \<Rightarrow> char" where
  "lower_char c = (case map_of (zip upper_letters lower_letters) c of Some l \<Rightarrow> l | None \<Rightarrow> c)"

definition toUpperCase :: "string \<Rightarrow> string" where
  "toUpperCase s = map upper_char s"

definition toLowerCase :: "string \<Rightarrow> string" where
  "toLowerCase s = map lower_char s"

text \<open>
  An environment variable is absent (\<^verbatim>\<open>undefined\<close>) or a string. \<^verbatim>\<open>x || ''\<close> reads it with
  the empty string as default; in a condition it is truthy when it is set and not empty.
\<close>

definition or_empty :: "string option \<Rightarrow> string" where
  "or_empty v = (case v of None \<Rightarrow> [] | Some s \<Rightarrow> s)"

definition truthy :: "string option \<Rightarrow> bool" where
  "truthy v = (case v of None \<Rightarrow> False | Some s \<Rightarrow> s \<noteq> [])"

section \<open>Backend selection\<close>

record env =
  DB_DIALECT :: "string option"
  DATABASE_URL :: "string option"
  PGHOST :: "string option"
  DB_SSL :: "string option"
  PGSSLMODE :: "string option"

datatype dialect = Postgres | Sqlite

definition resolveDialect :: "env \<Rightarrow> dialect" where
  "resolveDialect e =
     (let explicit = toLowerCase (trim (or_empty (DB_DIALECT e))) in
      if explicit = ''postgres'' \<or> explicit = ''postgresql'' \<or> explicit = ''pg'' then Postgres
      else if explicit = ''sqlite'' \<or> explicit = ''sqlite3'' then Sqlite
      else if truthy (DATABASE_URL e) \<or> truthy (PGHOST e) then Postgres
      else Sqlite)"

text \<open>
  \<^verbatim>\<open>shouldUseSsl\<close> reads the query parameter \<^verbatim>\<open>sslmode\<close> of the connection string with the
  platform's URL parser, which is no code of the repository: it is the parameter
  \<open>sslmode_of\<close>, where \<open>sslmode_of s\<close> is \<open>None\<close> when \<^verbatim>\<open>new URL(s)\<close> throws and otherwise
  \<open>Some\<close> of what \<^verbatim>\<open>searchParams.get('sslmode')\<close> returns (\<open>None\<close> for \<^verbatim>\<open>null\<close>).
\<close>

definition shouldUseSsl :: "(string \<Rightarrow> string option option) \<Rightarrow> env \<Rightarrow> string option \<Rightarrow> bool" where
  "shouldUseSsl sslmode_of e connectionString =
     (if DB_SSL e = Some ''1'' then True
      else if toLowerCase (or_empty (PGSSLMODE e)) = ''require'' then True
      else (case connectionString of
              None \<Rightarrow> False
            | Some cs \<Rightarrow>
                if cs = [] then False
                else (case sslmode_of cs of
                        None \<Rightarrow> False
                      | Some v \<Rightarrow>
                          (let sslmode = toLowerCase (or_empty v) in
                           sslmode = ''require'' \<or> sslmode = ''verify-full''
                             \<or> sslmode = ''verify-ca''))))"

record ssl_options =
  rejectUnauthorized :: bool

text \<open>The \<^verbatim>\<open>ssl\<close> option that \<^verbatim>\<open>createDb\<close> gives the pool; \<open>None\<close> is \<^verbatim>\<open>undefined\<close>.\<close>

definition pool_ssl :: "(string \<Rightarrow> string option option) \<Rightarrow> env \<Rightarrow> ssl_options option" where
  "pool_ssl sslmode_of e =
     (let connectionString = DATABASE_URL e in
      if shouldUseSsl sslmode_of e connectionString
      then Some \<lparr>rejectUnauthorized = False\<rparr> else None)"
section \<open>Statement translator\<close>

abbreviation squote :: char where "squote \<equiv> CHR 0x27"
abbreviation dquote :: char where "dquote \<equiv> CHR 0x22"
abbreviation newline :: char where "newline \<equiv> CHR 0x0A"

text \<open>
  The template literal \<^verbatim>\<open>`$${paramIndex}`\<close> prints the counter in decimal. (The counter is a
  JavaScript number; it stays far below the bound up to which numbers print as plain
  decimal integers, since a string has fewer than \<open>2^53\<close> characters.)
\<close>

definition digit_char :: "nat \<Rightarrow> char" where
  "digit_char d = ''0123456789'' ! d"

fun decimal :: "nat \<Rightarrow> string" where
  "decimal n = (if n < 10 then [digit_char n] else decimal (n div 10) @ [digit_char (n mod 10)])"

declare decimal.simps [simp del]

text \<open>
  The local variables of \<^verbatim>\<open>replaceQMarksWithPgParams\<close>; \<open>idx\<close> is the index \<^verbatim>\<open>i\<close>. One pass of
  the \<^verbatim>\<open>while\<close> loop is \<open>scan_step\<close>: \<^verbatim>\<open>ch\<close> is the character at the index, \<^verbatim>\<open>next\<close> the
  following character as a string, empty at the end of the input.
\<close>

record scanner =
  out :: string
  paramIndex :: nat
  idx :: nat
  inSingle :: bool
  inDouble :: bool
  inLineComment :: bool
  inBlockComment :: bool

definition scan_step :: "string \<Rightarrow> scanner \<Rightarrow> scanner" where
  "scan_step sql s =
     (let ch = sql ! idx s;
          next = (if idx s + 1 < length sql then [sql ! (idx s + 1)] else []) in
      if inLineComment s then
        s\<lparr>out := out s @ [ch],
          inLineComment := (if ch = newline then False else inLineComment s),
          idx := idx s + 1\<rparr>
      else if inBlockComment s then
        (if ch = CHR ''*'' \<and> next = ''/'' then
           s\<lparr>out := out s @ [ch] @ next, inBlockComment := False, idx := idx s + 2\<rparr>
         else s\<lparr>out := out s @ [ch], idx := idx s + 1\<rparr>)
      else if inSingle s then
        (if ch = squote \<and> next = [squote] then
           s\<lparr>out := out s @ [ch] @ next, idx := idx s + 2\<rparr>
         else s\<lparr>out := out s @ [ch],
                inSingle := (if ch = squote then False else inSingle s),
                idx := idx s + 1\<rparr>)
      else if inDouble s then
        (if ch = dquote \<and> next = [dquote] then
           s\<lparr>out := out s @ [ch] @ next, idx := idx s + 2\<rparr>
         else s\<lparr>out := out s @ [ch],
                inDouble := (if ch = dquote then False else inDouble s),
                idx := idx s + 1\<rparr>)
      else if ch = CHR ''-'' \<and> next = ''-'' then
        s\<lparr>out := out s @ [ch] @ next, inLineComment := True, idx := idx s + 2\<rparr>
      else if ch = CHR ''/'' \<and> next = ''*'' then
        s\<lparr>out := out s @ [ch] @ next, inBlockComment := True, idx := idx s + 2\<rparr>
      else if ch = squote then
        s\<lparr>out := out s @ [ch], inSingle := True, idx := idx s + 1\<rparr>
      else if ch = dquote then
        s\<lparr>out := out s @ [ch], inDouble := True, idx := idx s + 1\<rparr>
      else if ch = CHR ''?'' then
        s\<lparr>paramIndex := paramIndex s + 1,
          out := out s @ CHR ''$'' # decimal (paramIndex s + 1),
          idx := idx s + 1\<rparr>
      else s\<lparr>out := out s @ [ch], idx := idx s + 1\<rparr>)"

function scan_loop :: "string \<Rightarrow> scanner \<Rightarrow> scanner" where
  "scan_loop sql s = (if idx s < length sql then scan_loop sql (scan_step sql s) else s)"
  by pat_completeness auto
termination
  by (relation "measure (\<lambda>(sql, s). length sql - idx s)") (auto simp: scan_step_def Let_def)

declare scan_loop.simps [simp del]

definition replaceQMarksWithPgParams :: "string \<Rightarrow> string" where
  "replaceQMarksWithPgParams sql =
     out (scan_loop sql \<lparr>out = [], paramIndex = 0, idx = 0, inSingle = False,
            inDouble = False, inLineComment = False, inBlockComment = False\<rparr>)"

text \<open>
  The specification of the translator, from its wording: a scan from left to right in
  one of five lexical states, the default state (executable SQL text) and four states
  inside a single-quoted literal, a double-quoted identifier, a line comment and a block
  comment. \<open>lexical_states\<close> gives, for every character of the input, the state in which
  it is read. Two characters are read together where they open a comment, close a block
  comment or are a doubled quote inside a literal (which continues the literal);
  otherwise a quote opens or closes its literal and a newline ends a line comment.
  \<open>number_markers\<close> then replaces the markers read in the default state by \<^verbatim>\<open>$1\<close>, \<^verbatim>\<open>$2\<close>, ...
  and copies every other character.
\<close>

datatype lex_state = Executable | SingleQuoted | DoubleQuoted | LineComment | BlockComment

definition two_char_delimiter :: "lex_state \<Rightarrow> char \<Rightarrow> char \<Rightarrow> lex_state option" where
  "two_char_delimiter st c d =
     (if st = Executable \<and> c = CHR ''-'' \<and> d = CHR ''-'' then Some LineComment
      else if st = Executable \<and> c = CHR ''/'' \<and> d = CHR ''*'' then Some BlockComment
      else if st = BlockComment \<and> c = CHR ''*'' \<and> d = CHR ''/'' then Some Executable
      else if st = SingleQuoted \<and> c = squote \<and> d = squote then Some SingleQuoted
      else if st = DoubleQuoted \<and> c = dquote \<and> d = dquote then Some DoubleQuoted
      else None)"

definition after_char :: "lex_state \<Rightarrow> char \<Rightarrow> lex_state" where
  "after_char st c =
     (if st = Executable \<and> c = squote then SingleQuoted
      else if st = Executable \<and> c = dquote then DoubleQuoted
      else if st = SingleQuoted \<and> c = squote then Executable
      else if st = DoubleQuoted \<and> c = dquote then Executable
      else if st = LineComment \<and> c = newline then Executable
      else st)"

fun lexical_states :: "lex_state \<Rightarrow> string \<Rightarrow> lex_state list" where
  "lexical_states st [] = []"
| "lexical_states st [c] = [st]"
| "lexical_states st (c # d # cs) =
     (case two_char_delimiter st c d of
        Some st' \<Rightarrow> st # st # lexical_states st' cs
      | None \<Rightarrow> st # lexical_states (after_char st c) (d # cs))"

fun number_markers :: "nat \<Rightarrow> (char \<times> lex_state) list \<Rightarrow> string" where
  "number_markers k [] = []"
| "number_markers k ((c, st) # r) =
     (if c = CHR ''?'' \<and> st = Executable
      then CHR ''$'' # decimal (Suc k) @ number_markers (Suc k) r
      else c # number_markers k r)"

text \<open>
  For the proofs: the specification started in any state with any count; the lexical
  state that the four flags of the loop stand for; the invariant that at most one flag
  is set; and the characters that are no delimiter and no marker.
\<close>

definition translate_from :: "lex_state \<Rightarrow> nat \<Rightarrow> string \<Rightarrow> string" where
  "translate_from st k xs = number_markers k (zip xs (lexical_states st xs))"

definition state_of :: "scanner \<Rightarrow> lex_state" where
  "state_of s =
     (if inLineComment s then LineComment else if inBlockComment s then BlockComment
      else if inSingle s then SingleQuoted else if inDouble s then DoubleQuoted
      else Executable)"

definition one_flag :: "scanner \<Rightarrow> bool" where
  "one_flag s =
     (length (filter id [inSingle s, inDouble s, inLineComment s, inBlockComment s]) \<le> 1)"

definition plain :: "char \<Rightarrow> bool" where
  "plain c = (c \<notin> set [CHR ''-'', CHR ''/'', squote, dquote, CHR ''?''])"
section \<open>Insert-key emulation\<close>

text \<open>
  The two regular expressions of \<^verbatim>\<open>isInsertNeedingReturningId\<close>. \<open>keyword_then_space kw s\<close>
  is a match of \<^verbatim>\<open>/kw\s+/i\<close> at the start of \<open>s\<close> (for a lower-case keyword): the keyword in
  any letter case, then a white space character. \<open>re_search\<close> tries a match at every
  offset, as an expression without \<^verbatim>\<open>^\<close> does.
\<close>

definition keyword_then_space :: "string \<Rightarrow> string \<Rightarrow> bool" where
  "keyword_then_space kw s =
     (length kw < length s \<and> toLowerCase (take (length kw) s) = kw \<and> is_space (s ! length kw))"

fun re_search :: "(string \<Rightarrow> bool) \<Rightarrow> string \<Rightarrow> bool" where
  "re_search m [] = m []"
| "re_search m (c # cs) = (m (c # cs) \<or> re_search m cs)"

definition isInsertNeedingReturningId :: "string \<Rightarrow> bool" where
  "isInsertNeedingReturningId sql =
     (let s = trim sql in
      if \<not> keyword_then_space ''insert'' s then False
      else if re_search (keyword_then_space ''returning'') s then False
      else True)"

section \<open>Connections, pool and transaction context\<close>

text \<open>
  The driver and its pool are no code of the repository; they are modelled as far as
  \<^verbatim>\<open>createDb\<close> uses them. A connection is a number. What the database does is a parameter
  of every operation, the record \<open>driver\<close>: \<open>answer\<close> gives the outcome of a command (a
  thrown error or a result) from the commands sent before it, the runner (a leased
  connection, or \<open>None\<close> for the pool), the text and the values (\<open>None\<close> for \<^verbatim>\<open>undefined\<close>);
  \<open>open_connection\<close> gives the outcome of opening a new connection.
\<close>

type_synonym client = nat

datatype js_error = Error string

datatype jsval = Undefined | Null | Num int | Str string

record row =
  row_id :: jsval

record query_result =
  rowCount :: "nat option"
  rows :: "row list option"

record driver =
  answer :: "(client option \<times> string) list \<Rightarrow> client option \<Rightarrow> string \<Rightarrow> jsval list option
               \<Rightarrow> js_error + query_result"
  open_connection :: "(client option \<times> string) list \<Rightarrow> js_error + client"

text \<open>
  The state of one call chain. \<open>idle\<close> are the open connections the pool holds, the one
  released last first; \<open>leased\<close> are the connections handed out by \<^verbatim>\<open>pool.connect()\<close>;
  \<open>capacity\<close> is the number of connections the pool may still open before it reaches
  its maximum. \<open>sent\<close> lists the commands given to the driver so far, each with its
  runner.

  \<open>store\<close> is what \<^verbatim>\<open>txStore.getStore()?.client\<close> gives when the call chain calls an
  operation: the connection bound to the chain, if any.
\<close>

record pg_state =
  idle :: "client list"
  leased :: "client set"
  capacity :: nat
  store :: "client option"
  sent :: "(client option \<times> string) list"

text \<open>
  The pool takes the idle connection on top; with none idle it opens a new one while it
  is below its maximum, and the attempt may fail; at the maximum the request waits for
  a release. Nothing in a single call chain releases a connection while the chain
  waits, so the call does not return: the result \<open>None\<close>.
\<close>

definition pool_take :: "driver \<Rightarrow> pg_state \<Rightarrow> ((js_error + client) \<times> pg_state) option" where
  "pool_take drv w =
     (case idle w of
        c # cs \<Rightarrow> Some (Inr c, w\<lparr>idle := cs\<rparr>)
      | [] \<Rightarrow>
          if capacity w = 0 then None
          else (case open_connection drv (sent w) of
                  Inl e \<Rightarrow> Some (Inl e, w)
                | Inr c \<Rightarrow> Some (Inr c, w\<lparr>capacity := capacity w - 1\<rparr>)))"

text \<open>\<^verbatim>\<open>pool.connect()\<close>: the connection taken is leased to the caller.\<close>

definition pool_connect :: "driver \<Rightarrow> pg_state \<Rightarrow> ((js_error + client) \<times> pg_state) option" where
  "pool_connect drv w =
     (case pool_take drv w of
        None \<Rightarrow> None
      | Some (Inl e, w1) \<Rightarrow> Some (Inl e, w1)
      | Some (Inr c, w1) \<Rightarrow> Some (Inr c, w1\<lparr>leased := insert c (leased w1)\<rparr>))"

text \<open>
  \<^verbatim>\<open>client.release()\<close> puts a leased connection back on top of the idle connections; on
  a connection that is not leased it throws, as the driver does on a second release.
\<close>

definition release :: "pg_state \<Rightarrow> client \<Rightarrow> js_error option \<times> pg_state" where
  "release w c =
     (if c \<in> leased w
      then (None, w\<lparr>idle := c # idle w, leased := leased w - {c}\<rparr>)
      else (Some (Error ''Release called on client which has already been released to the pool.''), w))"

text \<open>\<^verbatim>\<open>client.query(text, values)\<close> on a leased connection.\<close>

definition client_query ::
  "driver \<Rightarrow> pg_state \<Rightarrow> client \<Rightarrow> string \<Rightarrow> jsval list option
     \<Rightarrow> (js_error + query_result) \<times> pg_state" where
  "client_query drv w c text values =
     (answer drv (sent w) (Some c) text values, w\<lparr>sent := sent w @ [(Some c, text)]\<rparr>)"

text \<open>
  \<^verbatim>\<open>pool.query(text, values)\<close>: the pool takes a connection, runs the command on it and
  puts the connection back; after a failed command it drops the connection instead,
  which leaves room to open another.
\<close>

definition pool_query ::
  "driver \<Rightarrow> pg_state \<Rightarrow> string \<Rightarrow> jsval list option
     \<Rightarrow> ((js_error + query_result) \<times> pg_state) option" where
  "pool_query drv w text values =
     (case pool_take drv w of
        None \<Rightarrow> None
      | Some (Inl e, w1) \<Rightarrow> Some (Inl e, w1)
      | Some (Inr c, w1) \<Rightarrow>
          (case answer drv (sent w1) None text values of
             Inl e \<Rightarrow>
               Some (Inl e, w1\<lparr>capacity := capacity w1 + 1, sent := sent w1 @ [(None, text)]\<rparr>)
           | Inr r \<Rightarrow>
               Some (Inr r, w1\<lparr>idle := c # idle w1, sent := sent w1 @ [(None, text)]\<rparr>)))"

text \<open>\<^verbatim>\<open>query\<close>: the runner is the bound connection, or the pool when none is bound.\<close>

definition query ::
  "driver \<Rightarrow> pg_state \<Rightarrow> string \<Rightarrow> jsval list option
     \<Rightarrow> ((js_error + query_result) \<times> pg_state) option" where
  "query drv w text values =
     (case store w of
        Some client \<Rightarrow> Some (client_query drv w client text values)
      | None \<Rightarrow> pool_query drv w text values)"

text \<open>
  \<^verbatim>\<open>txStore.enterWith(v)\<close>, as \<^verbatim>\<open>exec\<close> calls it: after an \<^verbatim>\<open>await\<close>. There it replaces the
  store of the asynchronous continuation of \<^verbatim>\<open>exec\<close> that is running, and that
  continuation ends with the call. The continuation of the caller was created when the
  caller began to wait for \<^verbatim>\<open>exec\<close>, with the store of that moment, so the call chain
  reads afterwards what it read before: \<open>store\<close> is unchanged.
\<close>

definition enterWith_after_await :: "pg_state \<Rightarrow> client option \<Rightarrow> pg_state" where
  "enterWith_after_await w v = w"

text \<open>
  \<^verbatim>\<open>exec\<close> normalises its argument with \<^verbatim>\<open>String(sql || '').trim().replace(/;+\s*$/, '')\<close>. On a
  string \<^verbatim>\<open>String(sql || '')\<close> is the string itself, and \<^verbatim>\<open>replace\<close> removes the leftmost match
  of the expression: one or more semicolons, then white space, up to the end of the text.
\<close>

definition semis_then_space :: "string \<Rightarrow> bool" where
  "semis_then_space s =
     (case s of [] \<Rightarrow> False
      | c # cs \<Rightarrow> c = CHR '';'' \<and> list_all is_space (dropWhile (\<lambda>x. x = CHR '';'') cs))"

fun strip_semicolons :: "string \<Rightarrow> string" where
  "strip_semicolons [] = []"
| "strip_semicolons (c # cs) =
     (if semis_then_space (c # cs) then [] else c # strip_semicolons cs)"

text \<open>
  The operations return \<open>None\<close> when the call does not return, and otherwise the outcome
  (a thrown error or the value) with the state after the call. The branch of \<^verbatim>\<open>exec\<close> for
  \<^verbatim>\<open>BEGIN\<close> and \<^verbatim>\<open>BEGIN TRANSACTION\<close>:
\<close>

definition begin_transaction ::
  "driver \<Rightarrow> pg_state \<Rightarrow> ((js_error + unit) \<times> pg_state) option" where
  "begin_transaction drv w =
     (case store w of
        Some bound \<Rightarrow> Some (Inl (Error ''Transaction already started''), w)
      | None \<Rightarrow>
          (case pool_connect drv w of
             None \<Rightarrow> None
           | Some (Inl e, w1) \<Rightarrow> Some (Inl e, w1)
           | Some (Inr client, w1) \<Rightarrow>
               (case client_query drv w1 client ''BEGIN'' None of
                  (Inl e, w2) \<Rightarrow> Some (Inl e, snd (release w2 client))
                | (Inr r, w2) \<Rightarrow> Some (Inr (), enterWith_after_await w2 (Some client)))))"

text \<open>
  The branches for \<^verbatim>\<open>COMMIT\<close> and \<^verbatim>\<open>ROLLBACK\<close> differ in the native command only. In the
  \<^verbatim>\<open>finally\<close> block an error thrown by \<^verbatim>\<open>client.release()\<close> skips \<^verbatim>\<open>txStore.enterWith(null)\<close>
  and replaces the error of the command.
\<close>

definition end_transaction ::
  "driver \<Rightarrow> pg_state \<Rightarrow> string \<Rightarrow> ((js_error + unit) \<times> pg_state) option" where
  "end_transaction drv w native =
     (case store w of
        None \<Rightarrow> Some (Inr (), w)
      | Some client \<Rightarrow>
          (case client_query drv w client native None of
             (r, w1) \<Rightarrow>
               (case release w1 client of
                  (Some e, w2) \<Rightarrow> Some (Inl e, w2)
                | (None, w2) \<Rightarrow>
                    (case r of
                       Inl e \<Rightarrow> Some (Inl e, enterWith_after_await w2 None)
                     | Inr ok \<Rightarrow> Some (Inr (), enterWith_after_await w2 None)))))"

definition exec :: "driver \<Rightarrow> pg_state \<Rightarrow> string \<Rightarrow> ((js_error + unit) \<times> pg_state) option" where
  "exec drv w sql =
     (let trimmed = strip_semicolons (trim sql);
          upper = toUpperCase trimmed in
      if upper = ''BEGIN'' \<or> upper = ''BEGIN TRANSACTION'' then begin_transaction drv w
      else if upper = ''COMMIT'' then end_transaction drv w ''COMMIT''
      else if upper = ''ROLLBACK'' then end_transaction drv w ''ROLLBACK''
      else (case query drv w sql None of
              None \<Rightarrow> None
            | Some (Inl e, w1) \<Rightarrow> Some (Inl e, w1)
            | Some (Inr r, w1) \<Rightarrow> Some (Inr (), w1)))"

text \<open>
  \<^verbatim>\<open>run\<close>. \<open>params\<close> is \<open>None\<close> for an argument that is no array. The coercion \<^verbatim>\<open>Number\<close> of the
  language is the parameter \<open>to_number\<close>. \<open>first_row_id\<close> is \<^verbatim>\<open>r.rows?.[0]?.id\<close>, and
  \<^verbatim>\<open>!= null\<close> holds of every value but \<^verbatim>\<open>null\<close> and \<^verbatim>\<open>undefined\<close>.
\<close>

record 'n run_result =
  changes :: nat
  lastID :: "'n option"

definition first_row_id :: "query_result \<Rightarrow> jsval" where
  "first_row_id r =
     (case rows r of None \<Rightarrow> Undefined | Some [] \<Rightarrow> Undefined | Some (x # xs) \<Rightarrow> row_id x)"

definition run ::
  "(jsval \<Rightarrow> 'n) \<Rightarrow> driver \<Rightarrow> pg_state \<Rightarrow> string \<Rightarrow> jsval list option
     \<Rightarrow> ((js_error + 'n run_result) \<times> pg_state) option" where
  "run to_number drv w sql params =
     (let text = replaceQMarksWithPgParams sql;
          values = (case params of None \<Rightarrow> [] | Some ps \<Rightarrow> ps);
          returning = isInsertNeedingReturningId text;
          text = (if returning then text @ '' RETURNING id'' else text)
      in case query drv w text (Some values) of
           None \<Rightarrow> None
         | Some (Inl e, w1) \<Rightarrow> Some (Inl e, w1)
         | Some (Inr r, w1) \<Rightarrow>
             Some (Inr \<lparr>changes = (case rowCount r of None \<Rightarrow> 0 | Some n \<Rightarrow> n),
                        lastID = (if returning \<and> first_row_id r \<noteq> Null \<and> first_row_id r \<noteq> Undefined
                                  then Some (to_number (first_row_id r)) else None)\<rparr>,
                   w1))"

text \<open>
  For comparison with the wording of the specification: the words of a statement, the
  maximal runs of letters, digits and underscores, and whether a keyword is among them.
\<close>

definition word_char :: "char \<Rightarrow> bool" where
  "word_char c = (c \<in> set (lower_letters @ upper_letters @ ''0123456789_''))"

fun words_from :: "string \<Rightarrow> string \<Rightarrow> string list" where
  "words_from w [] = (if w = [] then [] else [w])"
| "words_from w (c # cs) =
     (if word_char c then words_from (w @ [c]) cs
      else (if w = [] then [] else [w]) @ words_from [] cs)"

definition contains_token :: "string \<Rightarrow> string \<Rightarrow> bool" where
  "contains_token kw s = (kw \<in> set (map toLowerCase (words_from [] s)))"

definition begins_with_token :: "string \<Rightarrow> string \<Rightarrow> bool" where
  "begins_with_token kw s = (toLowerCase (takeWhile word_char s) = kw)"

section \<open>Properties of the backend selection\<close>

lemmas str_eval = trim_def toLowerCase_def toUpperCase_def lower_char_def upper_char_def
  lower_letters_def upper_letters_def is_space_def or_empty_def truthy_def

lemma toLowerCase_Nil [simp]: "toLowerCase [] = []"
  by (simp add: toLowerCase_def)

text \<open>
  Claim C8. The backend is chosen by priority: an explicit override that, trimmed and
  lowercased, is an alias of the client-server engine (\<^verbatim>\<open>postgres\<close>, \<^verbatim>\<open>postgresql\<close>, \<^verbatim>\<open>pg\<close>)
  or of the embedded engine (\<^verbatim>\<open>sqlite\<close>, \<^verbatim>\<open>sqlite3\<close>) decides; otherwise the client-server
  engine is chosen when the connection-string variable or the host variable is present
  (set to a non-empty value), and the embedded engine otherwise.
\<close>

theorem resolveDialect_priority:
  fixes e :: env
  defines "explicit \<equiv> toLowerCase (trim (or_empty (DB_DIALECT e)))"
  shows "resolveDialect e =
     (if explicit \<in> {''postgres'', ''postgresql'', ''pg''} then Postgres
      else if explicit \<in> {''sqlite'', ''sqlite3''} then Sqlite
      else if (\<exists>v. DATABASE_URL e = Some v \<and> v \<noteq> []) \<or> (\<exists>v. PGHOST e = Some v \<and> v \<noteq> [])
           then Postgres
      else Sqlite)"
  unfolding explicit_def resolveDialect_def Let_def truthy_def
  by (simp split: option.splits)

theorem resolveDialect_priority_witness:
  "resolveDialect \<lparr>DB_DIALECT = Some '' PG '', DATABASE_URL = None, PGHOST = None,
      DB_SSL = None, PGSSLMODE = None\<rparr> = Postgres
   \<and> resolveDialect \<lparr>DB_DIALECT = Some (''pg'' @ [CHR 0xA0]), DATABASE_URL = None, PGHOST = None,
      DB_SSL = None, PGSSLMODE = None\<rparr> = Postgres
   \<and> resolveDialect \<lparr>DB_DIALECT = Some ''SQLite3'', DATABASE_URL = Some ''postgres://h/db'',
      PGHOST = None, DB_SSL = None, PGSSLMODE = None\<rparr> = Sqlite
   \<and> resolveDialect \<lparr>DB_DIALECT = Some ''mysql'', DATABASE_URL = None,
      PGHOST = Some ''db.internal'', DB_SSL = None, PGSSLMODE = None\<rparr> = Postgres
   \<and> resolveDialect \<lparr>DB_DIALECT = None, DATABASE_URL = Some '''', PGHOST = None,
      DB_SSL = None, PGSSLMODE = None\<rparr> = Sqlite"
  using resolveDialect_priority [of "\<lparr>DB_DIALECT = Some '' PG '', DATABASE_URL = None, PGHOST = None,
      DB_SSL = None, PGSSLMODE = None\<rparr>"]
    resolveDialect_priority [of "\<lparr>DB_DIALECT = Some (''pg'' @ [CHR 0xA0]), DATABASE_URL = None,
      PGHOST = None, DB_SSL = None, PGSSLMODE = None\<rparr>"]
    resolveDialect_priority [of "\<lparr>DB_DIALECT = Some ''SQLite3'', DATABASE_URL = Some ''postgres://h/db'',
      PGHOST = None, DB_SSL = None, PGSSLMODE = None\<rparr>"]
    resolveDialect_priority [of "\<lparr>DB_DIALECT = Some ''mysql'', DATABASE_URL = None,
      PGHOST = Some ''db.internal'', DB_SSL = None, PGSSLMODE = None\<rparr>"]
    resolveDialect_priority [of "\<lparr>DB_DIALECT = None, DATABASE_URL = Some '''', PGHOST = None,
      DB_SSL = None, PGSSLMODE = None\<rparr>"]
  by (simp add: str_eval)

text \<open>
  Claim C9, as amended. The pool is created with SSL when the flag \<^verbatim>\<open>DB_SSL\<close> is exactly
  \<^verbatim>\<open>1\<close>, or the variable \<^verbatim>\<open>PGSSLMODE\<close> is \<^verbatim>\<open>require\<close> (in any letter case), or the connection
  string is not empty, parses as a URL, and its query parameter \<^verbatim>\<open>sslmode\<close> is \<^verbatim>\<open>require\<close>,
  \<^verbatim>\<open>verify-full\<close> or \<^verbatim>\<open>verify-ca\<close> (in any letter case). It is created without an SSL option
  when \<^verbatim>\<open>DB_SSL\<close> is not \<^verbatim>\<open>1\<close>, \<^verbatim>\<open>PGSSLMODE\<close> is none of \<^verbatim>\<open>require\<close>, \<^verbatim>\<open>verify-full\<close>, \<^verbatim>\<open>verify-ca\<close>, and
  the connection string requests nothing, also when it does not parse. Whenever SSL is
  enabled the certificate is not verified (\<^verbatim>\<open>rejectUnauthorized: false\<close>).
\<close>

theorem pool_ssl_policy:
  fixes e :: env and sslmode_of :: "string \<Rightarrow> string option option"
  defines "url_requests \<equiv>
    (\<exists>cs v. DATABASE_URL e = Some cs \<and> cs \<noteq> [] \<and> sslmode_of cs = Some (Some v)
       \<and> toLowerCase v \<in> {''require'', ''verify-full'', ''verify-ca''})"
  shows "(DB_SSL e = Some ''1''
            \<or> (\<exists>v. PGSSLMODE e = Some v \<and> toLowerCase v = ''require'') \<or> url_requests
          \<longrightarrow> pool_ssl sslmode_of e = Some \<lparr>rejectUnauthorized = False\<rparr>)
    \<and> (DB_SSL e \<noteq> Some ''1''
            \<and> \<not> (\<exists>v. PGSSLMODE e = Some v
                      \<and> toLowerCase v \<in> {''require'', ''verify-full'', ''verify-ca''})
            \<and> \<not> url_requests
          \<longrightarrow> pool_ssl sslmode_of e = None)
    \<and> (pool_ssl sslmode_of e = None
          \<or> pool_ssl sslmode_of e = Some \<lparr>rejectUnauthorized = False\<rparr>)"
  unfolding url_requests_def pool_ssl_def shouldUseSsl_def Let_def or_empty_def
  by (auto split: option.splits)

theorem pool_ssl_policy_witness:
  "pool_ssl (\<lambda>s. if s = ''postgres://h/db?sslmode=Verify-CA'' then Some (Some ''Verify-CA'') else None)
      \<lparr>DB_DIALECT = None, DATABASE_URL = Some ''postgres://h/db?sslmode=Verify-CA'', PGHOST = None,
        DB_SSL = None, PGSSLMODE = None\<rparr> = Some \<lparr>rejectUnauthorized = False\<rparr>
   \<and> pool_ssl (\<lambda>s. None)
      \<lparr>DB_DIALECT = None, DATABASE_URL = Some ''not a url'', PGHOST = None,
        DB_SSL = Some ''0'', PGSSLMODE = Some ''disable''\<rparr> = None"
  using pool_ssl_policy [of
      "\<lparr>DB_DIALECT = None, DATABASE_URL = Some ''postgres://h/db?sslmode=Verify-CA'', PGHOST = None,
        DB_SSL = None, PGSSLMODE = None\<rparr>"
      "\<lambda>s. if s = ''postgres://h/db?sslmode=Verify-CA'' then Some (Some ''Verify-CA'') else None"]
    pool_ssl_policy [of
      "\<lparr>DB_DIALECT = None, DATABASE_URL = Some ''not a url'', PGHOST = None,
        DB_SSL = Some ''0'', PGSSLMODE = Some ''disable''\<rparr>"
      "\<lambda>s. None"]
  by (simp add: str_eval)

text \<open>
  The claim as worded fails where the flag is set to another value than \<^verbatim>\<open>1\<close>, and where
  \<^verbatim>\<open>PGSSLMODE\<close> asks for \<^verbatim>\<open>verify-full\<close>: in both cases the pool gets no SSL option.
\<close>

theorem pool_ssl_policy_counterexample:
  "pool_ssl (\<lambda>s. None)
      \<lparr>DB_DIALECT = None, DATABASE_URL = None, PGHOST = Some ''db.internal'',
        DB_SSL = Some ''true'', PGSSLMODE = None\<rparr> = None
   \<and> pool_ssl (\<lambda>s. None)
      \<lparr>DB_DIALECT = None, DATABASE_URL = None, PGHOST = Some ''db.internal'',
        DB_SSL = None, PGSSLMODE = Some ''verify-full''\<rparr> = None"
  by (simp add: pool_ssl_def shouldUseSsl_def str_eval)

section \<open>Properties of the statement translator\<close>

text \<open>
  The loop of the source refines the specification. Each pass of the loop keeps at most
  one flag set and consumes one step of the specification: what is already written,
  followed by the specification's translation of the rest of the input from the current
  state and count, stays the same.
\<close>

lemma translate_from_Nil [simp]: "translate_from st k [] = []"
  by (simp add: translate_from_def)

lemma translate_from_single:
  "translate_from st k [c] = (if c = CHR ''?'' \<and> st = Executable then CHR ''$'' # decimal (Suc k) else [c])"
  by (simp add: translate_from_def)

lemma translate_from_pair:
  "two_char_delimiter st c d = Some st' \<Longrightarrow> translate_from st k (c # d # cs) = c # d # translate_from st' k cs"
  by (auto simp: translate_from_def two_char_delimiter_def split: if_splits)

lemma translate_from_one:
  "two_char_delimiter st c d = None \<Longrightarrow>
   translate_from st k (c # d # cs) =
     (if c = CHR ''?'' \<and> st = Executable then CHR ''$'' # decimal (Suc k) @ translate_from Executable (Suc k) (d # cs)
      else c # translate_from (after_char st c) k (d # cs))"
  by (simp add: translate_from_def after_char_def)

lemma one_flag_cases:
  assumes "one_flag s"
  obtains (E) "\<not> inSingle s" "\<not> inDouble s" "\<not> inLineComment s" "\<not> inBlockComment s"
    | (S) "inSingle s" "\<not> inDouble s" "\<not> inLineComment s" "\<not> inBlockComment s"
    | (D) "\<not> inSingle s" "inDouble s" "\<not> inLineComment s" "\<not> inBlockComment s"
    | (L) "\<not> inSingle s" "\<not> inDouble s" "inLineComment s" "\<not> inBlockComment s"
    | (B) "\<not> inSingle s" "\<not> inDouble s" "\<not> inLineComment s" "inBlockComment s"
  using assms unfolding one_flag_def
  by (cases "inSingle s"; cases "inDouble s"; cases "inLineComment s"; cases "inBlockComment s")
     simp_all

lemma scan_step_inv:
  assumes "idx s < length sql" "one_flag s"
  shows "idx (scan_step sql s) \<le> length sql \<and> one_flag (scan_step sql s)"
  using assms(2)
proof (cases rule: one_flag_cases)
  case E with assms(1) show ?thesis by (simp add: scan_step_def Let_def one_flag_def)
next
  case S with assms(1) show ?thesis by (simp add: scan_step_def Let_def one_flag_def)
next
  case D with assms(1) show ?thesis by (simp add: scan_step_def Let_def one_flag_def)
next
  case L with assms(1) show ?thesis by (simp add: scan_step_def Let_def one_flag_def)
next
  case B with assms(1) show ?thesis by (simp add: scan_step_def Let_def one_flag_def)
qed

lemma scan_step_refines_inner:
  assumes "idx s + 1 < length sql" "one_flag s"
  shows "out (scan_step sql s)
           @ translate_from (state_of (scan_step sql s)) (paramIndex (scan_step sql s))
               (drop (idx (scan_step sql s)) sql)
         = out s @ translate_from (state_of s) (paramIndex s) (drop (idx s) sql)"
proof -
  have d: "drop (idx s) sql = sql ! idx s # sql ! Suc (idx s) # drop (Suc (Suc (idx s))) sql"
    using assms(1) by (simp add: Cons_nth_drop_Suc Suc_lessD)
  have d1: "drop (Suc (idx s)) sql = sql ! Suc (idx s) # drop (Suc (Suc (idx s))) sql"
    using assms(1) by (simp add: Cons_nth_drop_Suc)
  note ev = translate_from_pair translate_from_one d d1 scan_step_def Let_def state_of_def two_char_delimiter_def
    after_char_def
  from assms(2) show ?thesis
  proof (cases rule: one_flag_cases)
    case E with assms(1) show ?thesis by (simp add: ev)
  next
    case S with assms(1) show ?thesis by (simp add: ev)
  next
    case D with assms(1) show ?thesis by (simp add: ev)
  next
    case L with assms(1) show ?thesis by (simp add: ev)
  next
    case B with assms(1) show ?thesis by (simp add: ev)
  qed
qed

lemma scan_step_refines_last:
  assumes "idx s < length sql" "\<not> idx s + 1 < length sql" "one_flag s"
  shows "out (scan_step sql s)
           @ translate_from (state_of (scan_step sql s)) (paramIndex (scan_step sql s))
               (drop (idx (scan_step sql s)) sql)
         = out s @ translate_from (state_of s) (paramIndex s) (drop (idx s) sql)"
proof -
  have "length sql = Suc (idx s)"
    using assms(1,2) by simp
  then have d: "drop (idx s) sql = [sql ! idx s]"
    by (metis Cons_nth_drop_Suc drop_all lessI order_refl)
  note ev = translate_from_single d scan_step_def Let_def state_of_def
  from assms(3) show ?thesis
  proof (cases rule: one_flag_cases)
    case E with assms(1,2) show ?thesis by (simp add: ev)
  next
    case S with assms(1,2) show ?thesis by (simp add: ev)
  next
    case D with assms(1,2) show ?thesis by (simp add: ev)
  next
    case L with assms(1,2) show ?thesis by (simp add: ev)
  next
    case B with assms(1,2) show ?thesis by (simp add: ev)
  qed
qed

lemma scan_step_refines:
  assumes "idx s < length sql" "one_flag s"
  shows "out (scan_step sql s)
           @ translate_from (state_of (scan_step sql s)) (paramIndex (scan_step sql s))
               (drop (idx (scan_step sql s)) sql)
         = out s @ translate_from (state_of s) (paramIndex s) (drop (idx s) sql)"
  using scan_step_refines_last [OF assms(1) _ assms(2)] scan_step_refines_inner [OF _ assms(2)] by blast

lemma scan_loop_refines:
  "idx s \<le> length sql \<Longrightarrow> one_flag s \<Longrightarrow>
   out (scan_loop sql s) = out s @ translate_from (state_of s) (paramIndex s) (drop (idx s) sql)"
proof (induction sql s rule: scan_loop.induct)
  case (1 sql s)
  show ?case
  proof (cases "idx s < length sql")
    case True
    from scan_step_inv [OF True "1.prems"(2)] "1.IH" [OF True]
    have "out (scan_loop sql (scan_step sql s))
            = out (scan_step sql s)
                @ translate_from (state_of (scan_step sql s)) (paramIndex (scan_step sql s))
                    (drop (idx (scan_step sql s)) sql)"
      by blast
    with scan_step_refines [OF True "1.prems"(2)] True show ?thesis
      by (simp add: scan_loop.simps [of sql s])
  next
    case False
    with "1.prems" show ?thesis
      by (simp add: scan_loop.simps [of sql s])
  qed
qed

lemma replace_refines:
  "replaceQMarksWithPgParams sql = number_markers 0 (zip sql (lexical_states Executable sql))"
  using scan_loop_refines [of "\<lparr>out = [], paramIndex = 0, idx = 0, inSingle = False,
            inDouble = False, inLineComment = False, inBlockComment = False\<rparr>" sql]
  by (simp add: replaceQMarksWithPgParams_def translate_from_def one_flag_def state_of_def)

text \<open>
  For idempotence: a placeholder consists of characters that are no delimiter and no
  marker, so a second pass copies it and stays in the default state.
\<close>

lemma digit_char_plain: "d < 10 \<Longrightarrow> plain (digit_char d)"
proof -
  assume "d < 10"
  then have "d \<in> {0, 1, 2, 3, 4, 5, 6, 7, 8, 9}" by auto
  then show ?thesis
    by (auto simp: plain_def digit_char_def)
qed

lemma decimal_plain: "\<forall>c \<in> set (decimal n). plain c"
proof (induction n rule: decimal.induct)
  case (1 n)
  show ?case
  proof (cases "n < 10")
    case True
    then show ?thesis by (simp add: decimal.simps [of n] digit_char_plain)
  next
    case False
    with 1 show ?thesis by (simp add: decimal.simps [of n] digit_char_plain)
  qed
qed

lemma translate_from_plain_Cons:
  assumes "plain x"
  shows "translate_from Executable j (x # r) = x # translate_from Executable j r"
proof (cases r)
  case Nil
  with assms show ?thesis by (simp add: translate_from_single plain_def)
next
  case (Cons y ys)
  from assms have "two_char_delimiter Executable x y = None"
    by (simp add: two_char_delimiter_def plain_def)
  from translate_from_one [OF this] assms show ?thesis
    unfolding Cons by (simp add: plain_def after_char_def)
qed

lemma translate_from_plain_prefix:
  "\<forall>c \<in> set ds. plain c \<Longrightarrow> translate_from Executable j (ds @ r) = ds @ translate_from Executable j r"
  by (induction ds) (simp_all add: translate_from_plain_Cons)

lemma translate_from_marker:
  "translate_from Executable k (CHR ''?'' # cs) = CHR ''$'' # decimal (Suc k) @ translate_from Executable (Suc k) cs"
proof (cases cs)
  case Nil
  then show ?thesis by (simp add: translate_from_single)
next
  case (Cons y ys)
  have "two_char_delimiter Executable (CHR ''?'') y = None"
    by (simp add: two_char_delimiter_def)
  from translate_from_one [OF this] show ?thesis
    unfolding Cons by simp
qed

lemma translate_from_head:
  "\<exists>r. translate_from st k (d # cs) = (if d = CHR ''?'' \<and> st = Executable then CHR ''$'' else d) # r"
proof (cases cs)
  case Nil
  then show ?thesis by (simp add: translate_from_single)
next
  case (Cons y ys)
  show ?thesis
  proof (cases "two_char_delimiter st d y")
    case None
    from translate_from_one [OF this] show ?thesis unfolding Cons by simp
  next
    case (Some st')
    then have "\<not> (d = CHR ''?'' \<and> st = Executable)"
      by (auto simp: two_char_delimiter_def split: if_splits)
    with translate_from_pair [OF Some] show ?thesis unfolding Cons by simp
  qed
qed

lemma translate_from_marker_again:
  "translate_from Executable k' (CHR ''$'' # decimal n @ r) = CHR ''$'' # decimal n @ translate_from Executable k' r"
proof -
  have "\<forall>c \<in> set (CHR ''$'' # decimal n). plain c"
    using decimal_plain [of n] by (simp add: plain_def)
  from translate_from_plain_prefix [OF this, of k' r] show ?thesis by simp
qed

lemma translate_from_idem: "translate_from st k' (translate_from st k xs) = translate_from st k xs"
proof (induction st xs arbitrary: k k' rule: lexical_states.induct)
  case (1 st)
  show ?case by simp
next
  case (2 st c)
  show ?case
    using translate_from_marker_again [of k' "Suc k" "[]"] by (simp add: translate_from_single)
next
  case (3 st c d cs)
  show ?case
  proof (cases "two_char_delimiter st c d")
    case (Some st')
    with 3 show ?thesis by (simp add: translate_from_pair)
  next
    case None
    note IH = "3.IH"(1) [OF None]
    show ?thesis
    proof (cases "c = CHR ''?'' \<and> st = Executable")
      case True
      then have "after_char st c = Executable" by (simp add: after_char_def)
      with IH [of k' "Suc k"] True translate_from_one [OF None, of k cs] show ?thesis
        by (simp add: translate_from_marker_again)
    next
      case False
      define R where "R = translate_from (after_char st c) k (d # cs)"
      let ?d = "if d = CHR ''?'' \<and> after_char st c = Executable then CHR ''$'' else d"
      obtain r where r: "R = ?d # r"
        using translate_from_head [of "after_char st c" k d cs] unfolding R_def by blast
      from None have n: "two_char_delimiter st c ?d = None"
        by (auto simp: two_char_delimiter_def split: if_splits)
      from False have first: "translate_from st k (c # d # cs) = c # R"
        unfolding R_def translate_from_one [OF None] by (rule if_not_P)
      from False have "translate_from st k' (c # ?d # r) = c # translate_from (after_char st c) k' (?d # r)"
        unfolding translate_from_one [OF n] by (rule if_not_P)
      then have "translate_from st k' (c # R) = c # translate_from (after_char st c) k' R"
        unfolding r .
      also have "translate_from (after_char st c) k' R = R"
        unfolding R_def by (rule IH)
      finally show ?thesis
        unfolding first .
    qed
  qed
qed

lemmas scan_eval = two_char_delimiter_def after_char_def digit_char_def decimal.simps

text \<open>
  Claim C1. For every SQL string the translator returns the input with each marker \<^verbatim>\<open>?\<close>
  that is read in executable position (outside single-quoted literals, double-quoted
  identifiers, line comments and block comments) replaced by \<^verbatim>\<open>$k\<close>, where \<open>k\<close> counts these
  markers from 1 in left-to-right order. A marker inside a literal or a comment, also
  after a doubled quote that continues the literal, is copied and not counted, and every
  other character is copied unchanged.
\<close>

theorem replaceQMarksWithPgParams_spec:
  "replaceQMarksWithPgParams sql = number_markers 0 (zip sql (lexical_states Executable sql))"
  by (rule replace_refines)

theorem replaceQMarksWithPgParams_spec_witness:
  "replaceQMarksWithPgParams ''SELECT * FROM t WHERE a = ? AND b = '?' -- ?''
     = ''SELECT * FROM t WHERE a = $1 AND b = '?' -- ?''
   \<and> replaceQMarksWithPgParams (''INSERT INTO t(s) VALUES ('it'' @ [squote, squote] @ ''s a ?')'')
     = ''INSERT INTO t(s) VALUES ('it'' @ [squote, squote] @ ''s a ?')''
   \<and> replaceQMarksWithPgParams ''/* ? */ (?, \"?\", ?)'' = ''/* ? */ ($1, \"?\", $2)''"
  using replaceQMarksWithPgParams_spec [of "''SELECT * FROM t WHERE a = ? AND b = '?' -- ?''"]
    replaceQMarksWithPgParams_spec [of "''INSERT INTO t(s) VALUES ('it'' @ [squote, squote] @ ''s a ?')''"]
    replaceQMarksWithPgParams_spec [of "''/* ? */ (?, \"?\", ?)''"]
  by (simp add: scan_eval)

text \<open>
  Claim C10. The translator is idempotent: translating a translated statement changes
  nothing. The first pass leaves no marker in executable position, and the placeholders
  it writes consist of \<^verbatim>\<open>$\<close> and digits, which are no delimiters.
\<close>

theorem replace_idempotent:
  "replaceQMarksWithPgParams (replaceQMarksWithPgParams sql) = replaceQMarksWithPgParams sql"
  using translate_from_idem [of Executable 0 0 sql] by (simp add: replace_refines translate_from_def)

theorem replace_idempotent_witness:
  "replaceQMarksWithPgParams (replaceQMarksWithPgParams ''a = ? AND b = ? -- ?'')
     = replaceQMarksWithPgParams ''a = ? AND b = ? -- ?''"
  using replace_idempotent [of "''a = ? AND b = ? -- ?''"] by simp

section \<open>Properties of the transaction context\<close>

lemmas exec_eval = str_eval semis_then_space_def exec_def begin_transaction_def
  end_transaction_def client_query_def pool_query_def query_def pool_take_def
  pool_connect_def release_def enterWith_after_await_def Let_def







text \<open>
  Claim C7. \<^verbatim>\<open>COMMIT\<close> or \<^verbatim>\<open>ROLLBACK\<close> while no connection is bound returns normally, sends
  no command and leaves the context and the pool unchanged.
\<close>

theorem commit_rollback_idle_noop:
  assumes "store w = None"
    and "toUpperCase (strip_semicolons (trim sql)) \<in> {''COMMIT'', ''ROLLBACK''}"
  shows "exec drv w sql = Some (Inr (), w)"
  using assms by (auto simp: exec_def Let_def end_transaction_def)

theorem commit_rollback_idle_noop_witness:
  "exec \<lparr>answer = (\<lambda>h c t v. Inl (Error ''unreachable'')),
         open_connection = (\<lambda>h. Inl (Error ''unreachable''))\<rparr>
      \<lparr>idle = [1, 2], leased = {}, capacity = 0, store = None, sent = []\<rparr> ''COMMIT''
     = Some (Inr (), \<lparr>idle = [1, 2], leased = {}, capacity = 0, store = None, sent = []\<rparr>)
   \<and> exec \<lparr>answer = (\<lambda>h c t v. Inl (Error ''unreachable'')),
         open_connection = (\<lambda>h. Inl (Error ''unreachable''))\<rparr>
      \<lparr>idle = [1, 2], leased = {}, capacity = 0, store = None, sent = []\<rparr> ''rollback;;''
     = Some (Inr (), \<lparr>idle = [1, 2], leased = {}, capacity = 0, store = None, sent = []\<rparr>)"
  using commit_rollback_idle_noop [of
      "\<lparr>idle = [1, 2], leased = {}, capacity = 0, store = None, sent = []\<rparr>" "''COMMIT''"
      "\<lparr>answer = (\<lambda>h c t v. Inl (Error ''unreachable'')),
        open_connection = (\<lambda>h. Inl (Error ''unreachable''))\<rparr>"]
    commit_rollback_idle_noop [of
      "\<lparr>idle = [1, 2], leased = {}, capacity = 0, store = None, sent = []\<rparr>" "''rollback;;''"
      "\<lparr>answer = (\<lambda>h c t v. Inl (Error ''unreachable'')),
        open_connection = (\<lambda>h. Inl (Error ''unreachable''))\<rparr>"]
  by (simp add: str_eval semis_then_space_def)

subsection \<open>Recognition of the control statements\<close>

lemma upper_char_space: "is_space c \<Longrightarrow> upper_char c = c"
proof -
  assume "is_space c"
  then consider "c = CHR 0x09" | "c = CHR 0x0A" | "c = CHR 0x0B" | "c = CHR 0x0C"
    | "c = CHR 0x0D" | "c = CHR '' ''" | "c = CHR 0xA0"
    by (auto simp: is_space_def)
  then show ?thesis
    by cases (simp_all add: upper_char_def lower_letters_def upper_letters_def)
qed

lemma in_dropWhile: "x \<in> set xs \<Longrightarrow> \<not> P x \<Longrightarrow> x \<in> set (dropWhile P xs)"
  by (induction xs) auto

lemma not_semis_then_space:
  assumes "x \<in> set s" and "x \<noteq> CHR '';''" and "\<not> is_space x"
  shows "\<not> semis_then_space s"
proof (cases s)
  case Nil
  with assms show ?thesis by simp
next
  case (Cons a as)
  show ?thesis
  proof (cases "a = CHR '';''")
    case True
    with assms Cons have "x \<in> set as" by auto
    then have "x \<in> set (dropWhile (\<lambda>x. x = CHR '';'') as)"
      using assms(2) by (rule in_dropWhile)
    with assms(3) show ?thesis
      by (auto simp: semis_then_space_def Cons list_all_iff)
  next
    case False
    then show ?thesis by (simp add: semis_then_space_def Cons)
  qed
qed

lemma strip_all_semicolons:
  "list_all (\<lambda>c. c = CHR '';'') semis \<Longrightarrow> strip_semicolons semis = []"
proof (cases semis)
  case Nil
  then show ?thesis by simp
next
  case (Cons a as)
  assume "list_all (\<lambda>c. c = CHR '';'') semis"
  then have a: "a = CHR '';''" and d: "dropWhile (\<lambda>x. x = CHR '';'') as = []"
    by (auto simp: Cons list_all_iff dropWhile_eq_Nil_conv)
  show ?thesis by (simp add: Cons semis_then_space_def a d)
qed

lemma strip_keyword_semicolons:
  assumes "k \<noteq> []" and "last k \<noteq> CHR '';''" and "\<not> is_space (last k)"
    and "list_all (\<lambda>c. c = CHR '';'') semis"
  shows "strip_semicolons (k @ semis) = k"
  using assms(1-3)
proof (induction k)
  case Nil
  then show ?case by simp
next
  case (Cons a k)
  have "last (a # k) \<in> set ((a # k) @ semis)" using last_in_set [of "a # k"] by simp
  from not_semis_then_space [OF this Cons.prems(2,3)]
  have no: "\<not> semis_then_space (a # k @ semis)" by simp
  show ?case
  proof (cases "k = []")
    case True
    with no assms(4) show ?thesis by (simp add: strip_all_semicolons)
  next
    case False
    with Cons have "strip_semicolons (k @ semis) = k" by simp
    with no show ?thesis by simp
  qed
qed

lemma trim_decorated:
  assumes "list_all is_space lead" and "list_all is_space trail"
    and "m \<noteq> []" and "\<not> is_space (hd m)" and "\<not> is_space (last m)"
  shows "trim (lead @ m @ trail) = m"
proof -
  from assms(3,4) have "dropWhile is_space (m @ trail) = m @ trail"
    by (cases m) simp_all
  with assms(1) have 1: "dropWhile is_space (lead @ m @ trail) = m @ trail"
    by (simp add: dropWhile_append2 list_all_iff)
  from assms(3,5) have "dropWhile is_space (rev m) = rev m"
    by (cases m rule: rev_cases) simp_all
  moreover from assms(2) have "\<And>x. x \<in> set (rev trail) \<Longrightarrow> is_space x"
    by (simp add: list_all_iff)
  then have "dropWhile is_space (rev trail @ rev m) = dropWhile is_space (rev m)"
    by (rule dropWhile_append2)
  ultimately have "dropWhile is_space (rev (m @ trail)) = rev m"
    by simp
  with 1 show ?thesis by (simp add: trim_def)
qed

lemma keyword_ends:
  assumes "toUpperCase k \<in> {''BEGIN'', ''BEGIN TRANSACTION'', ''COMMIT'', ''ROLLBACK''}"
  shows "k \<noteq> [] \<and> \<not> is_space (hd k) \<and> \<not> is_space (last k) \<and> last k \<noteq> CHR '';''"
proof -
  from assms have ne: "k \<noteq> []" by (auto simp: toUpperCase_def)
  then have h: "upper_char (hd k) = hd (toUpperCase k)"
    and l: "upper_char (last k) = last (toUpperCase k)"
    by (simp_all add: toUpperCase_def hd_map last_map)
  from assms have "hd (toUpperCase k) \<in> {CHR ''B'', CHR ''C'', CHR ''R''}"
    and "last (toUpperCase k) \<in> {CHR ''N'', CHR ''T'', CHR ''K''}"
    by auto
  with h l have hu: "upper_char (hd k) \<in> {CHR ''B'', CHR ''C'', CHR ''R''}"
    and lu: "upper_char (last k) \<in> {CHR ''N'', CHR ''T'', CHR ''K''}"
    by simp_all
  have "\<not> is_space (hd k)"
  proof
    assume "is_space (hd k)"
    with hu upper_char_space [of "hd k"] show False by (auto simp: is_space_def)
  qed
  moreover have "\<not> is_space (last k)"
  proof
    assume "is_space (last k)"
    with lu upper_char_space [of "last k"] show False by (auto simp: is_space_def)
  qed
  moreover have "last k \<noteq> CHR '';''"
  proof
    assume "last k = CHR '';''"
    with lu show False by (simp add: upper_char_def lower_letters_def upper_letters_def)
  qed
  ultimately show ?thesis using ne by simp
qed

lemma normalize_decorated:
  assumes "list_all is_space lead" and "list_all (\<lambda>c. c = CHR '';'') semis"
    and "list_all is_space trail"
    and "toUpperCase k \<in> {''BEGIN'', ''BEGIN TRANSACTION'', ''COMMIT'', ''ROLLBACK''}"
  shows "strip_semicolons (trim (lead @ k @ semis @ trail)) = k"
proof -
  from keyword_ends [OF assms(4)]
  have k: "k \<noteq> []" "\<not> is_space (hd k)" "\<not> is_space (last k)" "last k \<noteq> CHR '';''"
    by simp_all
  have "\<not> is_space (last (k @ semis))"
  proof (cases "semis = []")
    case True
    with k show ?thesis by simp
  next
    case False
    with assms(2) have "last semis = CHR '';''"
      using last_in_set [of semis] by (auto simp: list_all_iff)
    with False show ?thesis by (simp add: is_space_def)
  qed
  with k have "trim (lead @ (k @ semis) @ trail) = k @ semis"
    by (intro trim_decorated assms) simp_all
  then show ?thesis
    using strip_keyword_semicolons [OF k(1) k(4) k(3) assms(2)] by simp
qed

lemma strip_semicolons_suffix:
  "\<exists>suf. s = strip_semicolons s @ suf \<and> (suf = [] \<or> semis_then_space suf)"
proof (induction s)
  case Nil
  show ?case by simp
next
  case (Cons c cs)
  show ?case
  proof (cases "semis_then_space (c # cs)")
    case True
    then show ?thesis by simp
  next
    case False
    with Cons show ?thesis by auto
  qed
qed

lemma semis_then_space_form:
  assumes "semis_then_space x"
  shows "\<exists>semis ws. x = semis @ ws \<and> list_all (\<lambda>c. c = CHR '';'') semis \<and> list_all is_space ws"
proof -
  have "x = takeWhile (\<lambda>c. c = CHR '';'') x @ dropWhile (\<lambda>c. c = CHR '';'') x"
    by simp
  moreover have "list_all (\<lambda>c. c = CHR '';'') (takeWhile (\<lambda>c. c = CHR '';'') x)"
    by (auto simp: list_all_iff dest: set_takeWhileD)
  moreover from assms have "list_all is_space (dropWhile (\<lambda>c. c = CHR '';'') x)"
    by (cases x) (simp_all add: semis_then_space_def)
  ultimately show ?thesis by blast
qed

lemma trim_form:
  "\<exists>lead trail. s = lead @ trim s @ trail \<and> list_all is_space lead \<and> list_all is_space trail"
proof -
  define t where "t = dropWhile is_space s"
  have "rev (dropWhile is_space (rev t)) @ rev (takeWhile is_space (rev t))
      = rev (takeWhile is_space (rev t) @ dropWhile is_space (rev t))"
    by (simp only: rev_append)
  also have "\<dots> = rev (rev t)"
    by (simp only: takeWhile_dropWhile_id)
  also have "\<dots> = t"
    by simp
  finally have "t = trim s @ rev (takeWhile is_space (rev t))"
    by (simp add: trim_def t_def)
  moreover have "s = takeWhile is_space s @ t"
    by (simp add: t_def)
  ultimately have "s = takeWhile is_space s @ trim s @ rev (takeWhile is_space (rev t))"
    by simp
  moreover have "list_all is_space (takeWhile is_space s)"
    and "list_all is_space (rev (takeWhile is_space (rev t)))"
    by (auto simp: list_all_iff dest: set_takeWhileD)
  ultimately show ?thesis by blast
qed

lemma decorated_form:
  "\<exists>lead semis trail. sql = lead @ strip_semicolons (trim sql) @ semis @ trail
      \<and> list_all is_space lead \<and> list_all (\<lambda>c. c = CHR '';'') semis \<and> list_all is_space trail"
proof -
  obtain lead trail where t: "sql = lead @ trim sql @ trail"
    and sp: "list_all is_space lead" "list_all is_space trail"
    using trim_form by blast
  obtain suf where s: "trim sql = strip_semicolons (trim sql) @ suf"
    and suf: "suf = [] \<or> semis_then_space suf"
    using strip_semicolons_suffix by blast
  obtain semis ws where f: "suf = semis @ ws" "list_all (\<lambda>c. c = CHR '';'') semis"
    "list_all is_space ws"
    using suf semis_then_space_form [of suf] by (cases "suf = []") auto
  have "sql = lead @ (strip_semicolons (trim sql) @ suf) @ trail"
    using t s by simp
  then have "sql = lead @ strip_semicolons (trim sql) @ semis @ (ws @ trail)"
    using f(1) by simp
  moreover have "list_all is_space (ws @ trail)"
    using f(3) sp(2) by simp
  ultimately show ?thesis using sp(1) f(2) by blast
qed

lemma control_form_iff:
  assumes "K \<in> {''BEGIN'', ''BEGIN TRANSACTION'', ''COMMIT'', ''ROLLBACK''}"
  shows "(\<exists>lead k semis trail. sql = lead @ k @ semis @ trail \<and> list_all is_space lead
            \<and> list_all (\<lambda>c. c = CHR '';'') semis \<and> list_all is_space trail
            \<and> toUpperCase k = K)
         \<longleftrightarrow> toUpperCase (strip_semicolons (trim sql)) = K"
proof
  assume "\<exists>lead k semis trail. sql = lead @ k @ semis @ trail \<and> list_all is_space lead
            \<and> list_all (\<lambda>c. c = CHR '';'') semis \<and> list_all is_space trail
            \<and> toUpperCase k = K"
  then obtain lead k semis trail where d: "sql = lead @ k @ semis @ trail"
    "list_all is_space lead" "list_all (\<lambda>c. c = CHR '';'') semis" "list_all is_space trail"
    "toUpperCase k = K"
    by blast
  from d(5) assms
  have "toUpperCase k \<in> {''BEGIN'', ''BEGIN TRANSACTION'', ''COMMIT'', ''ROLLBACK''}"
    by simp
  from normalize_decorated [OF d(2,3,4) this] d(1,5)
  show "toUpperCase (strip_semicolons (trim sql)) = K" by simp
next
  assume "toUpperCase (strip_semicolons (trim sql)) = K"
  with decorated_form [of sql]
  show "\<exists>lead k semis trail. sql = lead @ k @ semis @ trail \<and> list_all is_space lead
            \<and> list_all (\<lambda>c. c = CHR '';'') semis \<and> list_all is_space trail
            \<and> toUpperCase k = K"
    by blast
qed

lemmas control_form_iffs =
  control_form_iff [of "''BEGIN''", simplified]
  control_form_iff [of "''BEGIN TRANSACTION''", simplified]
  control_form_iff [of "''COMMIT''", simplified]
  control_form_iff [of "''ROLLBACK''", simplified]

text \<open>
  Claim C4, as amended. \<^verbatim>\<open>exec\<close> treats its input as a control statement exactly when the
  input is one of the keywords \<^verbatim>\<open>BEGIN\<close>, \<^verbatim>\<open>BEGIN TRANSACTION\<close>, \<^verbatim>\<open>COMMIT\<close>, \<^verbatim>\<open>ROLLBACK\<close> in any
  letter case, directly followed by any number of semicolons, with white space before
  and after the whole; every other input is passed to the database as it is. White
  space between the keyword and a semicolon is not accepted.
\<close>

theorem exec_control_statements:
  fixes sql :: string
  defines "control K \<equiv>
    (\<exists>lead k semis trail. sql = lead @ k @ semis @ trail \<and> list_all is_space lead
        \<and> list_all (\<lambda>c. c = CHR '';'') semis \<and> list_all is_space trail
        \<and> toUpperCase k = K)"
  shows "exec drv w sql =
     (if control ''BEGIN'' \<or> control ''BEGIN TRANSACTION'' then begin_transaction drv w
      else if control ''COMMIT'' then end_transaction drv w ''COMMIT''
      else if control ''ROLLBACK'' then end_transaction drv w ''ROLLBACK''
      else (case query drv w sql None of
              None \<Rightarrow> None
            | Some (Inl e, w1) \<Rightarrow> Some (Inl e, w1)
            | Some (Inr r, w1) \<Rightarrow> Some (Inr (), w1)))"
  unfolding control_def control_form_iffs exec_def Let_def by (rule refl)

theorem exec_control_statements_witness:
  "exec \<lparr>answer = (\<lambda>h c t v. Inr \<lparr>rowCount = None, rows = Some []\<rparr>),
         open_connection = (\<lambda>h. Inr 3)\<rparr>
      \<lparr>idle = [1, 2], leased = {}, capacity = 0, store = None, sent = []\<rparr>
      ([CHR 0xA0] @ '' begin;; '' @ [newline])
     = Some (Inr (), \<lparr>idle = [2], leased = {1}, capacity = 0, store = None,
          sent = [(Some 1, ''BEGIN'')]\<rparr>)
   \<and> exec \<lparr>answer = (\<lambda>h c t v. Inr \<lparr>rowCount = None, rows = Some []\<rparr>),
         open_connection = (\<lambda>h. Inr 3)\<rparr>
      \<lparr>idle = [1, 2], leased = {}, capacity = 0, store = None, sent = []\<rparr>
      (''COMMIT'' @ [CHR 0xA0])
     = Some (Inr (), \<lparr>idle = [1, 2], leased = {}, capacity = 0, store = None, sent = []\<rparr>)
   \<and> exec \<lparr>answer = (\<lambda>h c t v. Inr \<lparr>rowCount = None, rows = Some []\<rparr>),
         open_connection = (\<lambda>h. Inr 3)\<rparr>
      \<lparr>idle = [1, 2], leased = {}, capacity = 0, store = None, sent = []\<rparr> ''SELECT 1;''
     = Some (Inr (), \<lparr>idle = [1, 2], leased = {}, capacity = 0, store = None,
          sent = [(None, ''SELECT 1;'')]\<rparr>)"
  using exec_control_statements [of
      "\<lparr>answer = (\<lambda>h c t v. Inr \<lparr>rowCount = None, rows = Some []\<rparr>),
        open_connection = (\<lambda>h. Inr 3)\<rparr>"
      "\<lparr>idle = [1, 2], leased = {}, capacity = 0, store = None, sent = []\<rparr>"
      "[CHR 0xA0] @ '' begin;; '' @ [newline]", unfolded control_form_iffs]
    exec_control_statements [of
      "\<lparr>answer = (\<lambda>h c t v. Inr \<lparr>rowCount = None, rows = Some []\<rparr>),
        open_connection = (\<lambda>h. Inr 3)\<rparr>"
      "\<lparr>idle = [1, 2], leased = {}, capacity = 0, store = None, sent = []\<rparr>"
      "''COMMIT'' @ [CHR 0xA0]", unfolded control_form_iffs]
    exec_control_statements [of
      "\<lparr>answer = (\<lambda>h c t v. Inr \<lparr>rowCount = None, rows = Some []\<rparr>),
        open_connection = (\<lambda>h. Inr 3)\<rparr>"
      "\<lparr>idle = [1, 2], leased = {}, capacity = 0, store = None, sent = []\<rparr>"
      "''SELECT 1;''", unfolded control_form_iffs]
  by (simp add: exec_eval)

text \<open>
  The input \<^verbatim>\<open>ROLLBACK ;\<close> is not recognised: with a connection bound, it is sent to the
  database on that connection as an ordinary statement and the connection stays leased,
  where \<^verbatim>\<open>ROLLBACK\<close> releases it.
\<close>

theorem exec_control_statements_counterexample:
  "exec \<lparr>answer = (\<lambda>h c t v. Inr \<lparr>rowCount = None, rows = Some []\<rparr>),
         open_connection = (\<lambda>h. Inr 3)\<rparr>
      \<lparr>idle = [2], leased = {1}, capacity = 0, store = Some 1, sent = []\<rparr> ''ROLLBACK ;''
     = Some (Inr (), \<lparr>idle = [2], leased = {1}, capacity = 0, store = Some 1,
          sent = [(Some 1, ''ROLLBACK ;'')]\<rparr>)
   \<and> exec \<lparr>answer = (\<lambda>h c t v. Inr \<lparr>rowCount = None, rows = Some []\<rparr>),
         open_connection = (\<lambda>h. Inr 3)\<rparr>
      \<lparr>idle = [2], leased = {1}, capacity = 0, store = Some 1, sent = []\<rparr> ''ROLLBACK''
     = Some (Inr (), \<lparr>idle = [1, 2], leased = {}, capacity = 0, store = Some 1,
          sent = [(Some 1, ''ROLLBACK'')]\<rparr>)"
  by (simp add: exec_eval)

section \<open>Properties of the insert-key emulation\<close>

text \<open>
  Claim C3 asks that \<^verbatim>\<open>run\<close> appends \<^verbatim>\<open> RETURNING id\<close> exactly to the statements that begin with
  an \<^verbatim>\<open>INSERT\<close> token and contain no \<^verbatim>\<open>RETURNING\<close> token, so that no statement is rewritten
  twice. The source looks for \<^verbatim>\<open>returning\<close> followed by white space in the text instead. A
  statement that ends in \<^verbatim>\<open>RETURNING*\<close> contains the token and gets the clause a second
  time; an insert into a table named \<^verbatim>\<open>log_returning\<close> contains no such token and gets no
  clause, so the id of its first row is not returned.
\<close>

theorem run_misses_returning_token:
  "begins_with_token ''insert'' (trim ''INSERT INTO t (a) VALUES (?) RETURNING*'')
   \<and> contains_token ''returning'' ''INSERT INTO t (a) VALUES (?) RETURNING*''
   \<and> run (\<lambda>v. v)
        \<lparr>answer = (\<lambda>h c t v. Inr \<lparr>rowCount = Some 1, rows = Some [\<lparr>row_id = Num 7\<rparr>]\<rparr>),
         open_connection = (\<lambda>h. Inr 3)\<rparr>
        \<lparr>idle = [1], leased = {}, capacity = 0, store = None, sent = []\<rparr>
        ''INSERT INTO t (a) VALUES (?) RETURNING*'' (Some [Num 5])
     = Some (Inr \<lparr>changes = 1, lastID = Some (Num 7)\<rparr>,
         \<lparr>idle = [1], leased = {}, capacity = 0, store = None,
           sent = [(None, ''INSERT INTO t (a) VALUES ($1) RETURNING* RETURNING id'')]\<rparr>)
   \<and> begins_with_token ''insert'' (trim ''insert into log_returning (a) values (?)'')
   \<and> \<not> contains_token ''returning'' ''insert into log_returning (a) values (?)''
   \<and> run (\<lambda>v. v)
        \<lparr>answer = (\<lambda>h c t v. Inr \<lparr>rowCount = Some 1, rows = Some [\<lparr>row_id = Num 7\<rparr>]\<rparr>),
         open_connection = (\<lambda>h. Inr 3)\<rparr>
        \<lparr>idle = [1], leased = {}, capacity = 0, store = None, sent = []\<rparr>
        ''insert into log_returning (a) values (?)'' (Some [Num 5])
     = Some (Inr \<lparr>changes = 1, lastID = None\<rparr>,
         \<lparr>idle = [1], leased = {}, capacity = 0, store = None,
           sent = [(None, ''insert into log_returning (a) values ($1)'')]\<rparr>)"
  by code_simp

end
